theory Spec2Isabelle
  imports Main "HOL-Library.Sublist"
begin

section \<open>Go strings and the standard-library functions the program calls\<close>

text \<open>
  A Go string is a sequence of bytes, and so is a HOL \<open>string\<close>: \<open>==\<close> is equality of
  the byte lists and \<open>len\<close> is \<open>length\<close>. Text is UTF-8, so a letter outside ASCII takes
  two or more bytes; the Hungarian phrases of the source are written out as bytes below.
\<close>

definition byte :: "char \<Rightarrow> nat" where
  "byte c = of_char c"

definition RuneSelf :: nat where
  "RuneSelf = 0x80"

text \<open>
  The case tables of Go's \<open>unicode\<close> package are not part of the repository. The ASCII
  paths of \<open>strings.ToLower\<close> and \<open>strings.EqualFold\<close> are written out; what they do
  once a byte outside ASCII is met is a parameter, so every theorem below holds for any
  table, the one of the Go release in use included.
  \<^item> \<open>Map_ToLower s\<close> stands for \<open>strings.Map(unicode.ToLower, s)\<close>;
  \<^item> \<open>EqualFold_unicode s t\<close> stands for the rune loop of \<open>strings.EqualFold\<close> (label
    \<open>hasUnicode\<close>) on the remaining suffixes \<open>s\<close> and \<open>t\<close>.
\<close>

record unicode =
  Map_ToLower :: "string \<Rightarrow> string"
  EqualFold_unicode :: "string \<Rightarrow> string \<Rightarrow> bool"

definition isASCII :: "string \<Rightarrow> bool" where
  "isASCII s = list_all (\<lambda>c. byte c < RuneSelf) s"

definition lowerASCII :: "char \<Rightarrow> char" where
  "lowerASCII c =
     (if byte (CHR ''A'') \<le> byte c \<and> byte c \<le> byte (CHR ''Z'')
      then char_of (byte c + (byte (CHR ''a'') - byte (CHR ''A''))) else c)"

text \<open>
  \<open>strings.ToLower\<close>: a string of ASCII bytes is lowered byte by byte (and returned as it
  is when it has no upper-case letter, which is the same value); any other string goes
  through \<open>strings.Map(unicode.ToLower, s)\<close>.
\<close>

definition ToLower :: "unicode \<Rightarrow> string \<Rightarrow> string" where
  "ToLower U s = (if isASCII s then map lowerASCII s else Map_ToLower U s)"

text \<open>\<open>strings.Contains(s, substr)\<close>: \<open>substr\<close> occurs in \<open>s\<close> as a run of bytes.\<close>

fun Contains :: "string \<Rightarrow> string \<Rightarrow> bool" where
  "Contains [] substr = (substr = [])"
| "Contains (c # s) substr = (prefix substr (c # s) \<or> Contains s substr)"

text \<open>
  \<open>strings.EqualFold(s, t)\<close>: the byte loop compares ASCII bytes, equal or an upper-case
  letter and its lower-case form; at the first position where either byte is outside
  ASCII the rune loop takes over; when one string is used up the lengths decide.
\<close>

definition foldASCII :: "char \<Rightarrow> char \<Rightarrow> bool" where
  "foldASCII sr tr =
     (let lo = min (byte sr) (byte tr); hi = max (byte sr) (byte tr)
      in byte (CHR ''A'') \<le> lo \<and> lo \<le> byte (CHR ''Z'')
         \<and> hi = lo + (byte (CHR ''a'') - byte (CHR ''A'')))"

fun EqualFold :: "unicode \<Rightarrow> string \<Rightarrow> string \<Rightarrow> bool" where
  "EqualFold U (sr # s) (tr # t) =
     (if RuneSelf \<le> byte sr \<or> RuneSelf \<le> byte tr then EqualFold_unicode U (sr # s) (tr # t)
      else if tr = sr then EqualFold U s t
      else if foldASCII sr tr then EqualFold U s t
      else False)"
| "EqualFold U [] t = (length ([] :: string) = length t)"
| "EqualFold U s [] = (length s = length ([] :: string))"

text \<open>
  \<open>strings.TrimSpace\<close> removes from both ends every rune for which \<open>unicode.IsSpace\<close>
  holds. \<open>space_runes\<close> lists the UTF-8 encodings of those runes: the six ASCII ones,
  U+0085, U+00A0, U+1680, U+2000 to U+200A, U+2028, U+2029, U+202F, U+205F, U+3000.
  A byte that starts no valid encoding of such a rune decodes to something else (or to
  the error rune) and stops the trimming.
\<close>

definition space_runes :: "string list" where
  "space_runes =
     [[CHR 0x09], [CHR 0x0A], [CHR 0x0B], [CHR 0x0C], [CHR 0x0D], [CHR 0x20],
      [CHR 0xC2, CHR 0x85], [CHR 0xC2, CHR 0xA0],
      [CHR 0xE1, CHR 0x9A, CHR 0x80],
      [CHR 0xE2, CHR 0x80, CHR 0x80], [CHR 0xE2, CHR 0x80, CHR 0x81],
      [CHR 0xE2, CHR 0x80, CHR 0x82], [CHR 0xE2, CHR 0x80, CHR 0x83],
      [CHR 0xE2, CHR 0x80, CHR 0x84], [CHR 0xE2, CHR 0x80, CHR 0x85],
      [CHR 0xE2, CHR 0x80, CHR 0x86], [CHR 0xE2, CHR 0x80, CHR 0x87],
      [CHR 0xE2, CHR 0x80, CHR 0x88], [CHR 0xE2, CHR 0x80, CHR 0x89],
      [CHR 0xE2, CHR 0x80, CHR 0x8A],
      [CHR 0xE2, CHR 0x80, CHR 0xA8], [CHR 0xE2, CHR 0x80, CHR 0xA9],
      [CHR 0xE2, CHR 0x80, CHR 0xAF], [CHR 0xE2, CHR 0x81, CHR 0x9F],
      [CHR 0xE3, CHR 0x80, CHR 0x80]]"

definition leading_space :: "string \<Rightarrow> nat" where
  "leading_space s =
     (case find (\<lambda>e. prefix e s) space_runes of None \<Rightarrow> 0 | Some e \<Rightarrow> length e)"

definition trailing_space :: "string \<Rightarrow> nat" where
  "trailing_space s =
     (case find (\<lambda>e. suffix e s) space_runes of None \<Rightarrow> 0 | Some e \<Rightarrow> length e)"

function TrimLeft :: "string \<Rightarrow> string" where
  "TrimLeft s = (if leading_space s = 0 then s else TrimLeft (drop (leading_space s) s))"
  by pat_completeness auto
termination
proof (relation "measure length")
  show "wf (measure length)" by simp
next
  fix s :: string
  assume pos: "leading_space s \<noteq> 0"
  have "s \<noteq> []"
  proof
    assume "s = []"
    then have "leading_space s = 0"
      by (simp add: leading_space_def space_runes_def)
    with pos show False by simp
  qed
  with pos show "(drop (leading_space s) s, s) \<in> measure length"
    by simp
qed

function TrimRight :: "string \<Rightarrow> string" where
  "TrimRight s =
     (if trailing_space s = 0 then s else TrimRight (take (length s - trailing_space s) s))"
  by pat_completeness auto
termination
proof (relation "measure length")
  show "wf (measure length)" by simp
next
  fix s :: string
  assume pos: "trailing_space s \<noteq> 0"
  have "s \<noteq> []"
  proof
    assume "s = []"
    then have "trailing_space s = 0"
      by (simp add: trailing_space_def space_runes_def)
    with pos show False by simp
  qed
  with pos show "(take (length s - trailing_space s) s, s) \<in> measure length"
    by simp
qed

declare TrimLeft.simps [simp del] TrimRight.simps [simp del]

definition TrimSpace :: "string \<Rightarrow> string" where
  "TrimSpace s = TrimRight (TrimLeft s)"

text \<open>
  An instance of the Unicode paths, used only where a theorem is evaluated at a concrete
  input. It agrees with Go on valid UTF-8 text whose code points lie below U+0100: the
  letters U+00C0 to U+00DE other than U+00D7 are the upper-case ones, encoded as 0xC3
  followed by 0x80 to 0x9E, and the lower-case form is 0x20 further on. It is not Go's
  table for letters from U+0100 on, which it leaves as they are, nor for invalid UTF-8,
  which Go replaces by the error rune; every concrete input below stays inside the
  range where the two agree.
\<close>

fun lower_latin1 :: "string \<Rightarrow> string" where
  "lower_latin1 [] = []"
| "lower_latin1 [c] = [lowerASCII c]"
| "lower_latin1 (c # d # s) =
     (if c = CHR 0xC3 \<and> 0x80 \<le> byte d \<and> byte d \<le> 0x9E \<and> d \<noteq> CHR 0x97
      then c # char_of (byte d + 0x20) # lower_latin1 s
      else lowerASCII c # lower_latin1 (d # s))"

definition utf8_latin1 :: unicode where
  "utf8_latin1 =
     \<lparr>Map_ToLower = lower_latin1,
      EqualFold_unicode = (\<lambda>s t. lower_latin1 s = lower_latin1 t)\<rparr>"

section \<open>Package config: the rule store\<close>

text \<open>
  \<open>Category\<close> and \<open>Config\<close> are the structs of \<open>internal/config\<close>. \<open>Categories\<close> is a Go
  map from category name to \<open>*Category\<close>: it is kept as the list of its entries, with
  distinct keys, and a nil pointer is \<open>None\<close>. A nil map and an empty map are both \<open>[]\<close>
  (every read of the program treats them alike).
\<close>

record Category =
  SubCategory :: string
  Keywords :: "string list"
  ExactMatches :: "string list"

record Config =
  KnownPartners :: "string list"
  Categories :: "(string \<times> Category option) list"

datatype error = ErrNotExist | ErrRead | ErrYaml

text \<open>
  The file behind a path, as \<open>os.ReadFile\<close> and \<open>yaml.Unmarshal\<close> see it. A file that
  exists and can be read holds either text that \<open>yaml.Unmarshal\<close> rejects for the target
  type \<open>Config\<close> (\<open>Malformed\<close>: a syntax error, or a value whose type does not fit its
  field), or a document that fits the yaml tags of the two structs. In such a document a
  key is present with its value, or missing (a key whose value is null counts as
  missing: both leave the field at its zero value); the value of a category name is a
  mapping or null.
\<close>

record category_node =
  yaml_subcategory :: "string option"
  yaml_keywords :: "string list option"
  yaml_exact_matches :: "string list option"

record config_node =
  yaml_known_partners :: "string list option"
  yaml_categories :: "(string \<times> category_node option) list option"

datatype content = Malformed | Document config_node

datatype file_state = NotExist | Unreadable | File content

type_synonym filesystem = "string \<Rightarrow> file_state"

definition ReadFile :: "filesystem \<Rightarrow> string \<Rightarrow> error + content" where
  "ReadFile fs path =
     (case fs path of
        NotExist \<Rightarrow> Inl ErrNotExist
      | Unreadable \<Rightarrow> Inl ErrRead
      | File data \<Rightarrow> Inr data)"

definition IsNotExist :: "error \<Rightarrow> bool" where
  "IsNotExist err = (err = ErrNotExist)"

text \<open>
  Decoding into a zero \<open>Config\<close>: a field whose key is missing keeps its zero value (the
  empty string, the nil slice, the nil map); a null category is a nil pointer; a
  mapping that repeats a key is an error of the decoder.
\<close>

definition zero_or :: "'a list option \<Rightarrow> 'a list" where
  "zero_or v = (case v of None \<Rightarrow> [] | Some x \<Rightarrow> x)"

definition decode_Category :: "category_node \<Rightarrow> Category" where
  "decode_Category n =
     \<lparr>SubCategory = zero_or (yaml_subcategory n),
      Keywords = zero_or (yaml_keywords n),
      ExactMatches = zero_or (yaml_exact_matches n)\<rparr>"

definition Unmarshal :: "content \<Rightarrow> error + Config" where
  "Unmarshal data =
     (case data of
        Malformed \<Rightarrow> Inl ErrYaml
      | Document d \<Rightarrow>
          if distinct (map fst (zero_or (yaml_categories d)))
          then Inr \<lparr>KnownPartners = zero_or (yaml_known_partners d),
                    Categories = map (\<lambda>(name, n). (name, map_option decode_Category n))
                                     (zero_or (yaml_categories d))\<rparr>
          else Inl ErrYaml)"

text \<open>
  \<open>LoadConfig\<close> (config.go): read, decode, replace a nil \<open>Categories\<close> by an empty map
  (the same value here), return. Nothing else is checked.
\<close>

definition LoadConfig :: "filesystem \<Rightarrow> string \<Rightarrow> error + Config" where
  "LoadConfig fs path =
     (case ReadFile fs path of
        Inl err \<Rightarrow> Inl err
      | Inr data \<Rightarrow>
          (case Unmarshal data of
             Inl err \<Rightarrow> Inl err
           | Inr config \<Rightarrow> Inr config))"

definition IsKnownPartner :: "Config \<Rightarrow> string \<Rightarrow> bool" where
  "IsKnownPartner c partner = list_ex (\<lambda>known. known = partner) (KnownPartners c)"

section \<open>Package cmd: loading the configuration or its default\<close>

text \<open>
  \<open>loadConfigOrDefault\<close> (convert.go) returns the configuration or the error, and the
  lines it wrote to standard error.
\<close>

definition empty_Config :: Config where
  "empty_Config = \<lparr>KnownPartners = [], Categories = []\<rparr>"

definition loadConfigOrDefault :: "filesystem \<Rightarrow> string \<Rightarrow> (error + Config) \<times> string list" where
  "loadConfigOrDefault fs configPath =
     (if configPath = [] then (Inr empty_Config, [])
      else (case LoadConfig fs configPath of
              Inl err \<Rightarrow>
                if IsNotExist err
                then (Inr empty_Config, [''Warning: Config file not found, using empty categories''])
                else (Inl err, [])
            | Inr cfg \<Rightarrow> (Inr cfg, [])))"

section \<open>Package categorizer\<close>

text \<open>The phrases of the transaction-type fallback, as UTF-8 bytes.\<close>

definition jovairas :: string where
  "jovairas = ''j'' @ [CHR 0xC3, CHR 0xB3] @ ''v'' @ [CHR 0xC3, CHR 0xA1, CHR 0xC3, CHR 0xAD]
              @ ''r'' @ [CHR 0xC3, CHR 0xA1] @ ''s''"

definition fizetes :: string where
  "fizetes = ''fizet'' @ [CHR 0xC3, CHR 0xA9] @ ''s''"

definition hitel_torlesztes :: string where
  "hitel_torlesztes = ''hitel t'' @ [CHR 0xC3, CHR 0xB6] @ ''rleszt'' @ [CHR 0xC3, CHR 0xA9] @ ''s''"

definition keszpenz :: string where
  "keszpenz = ''k'' @ [CHR 0xC3, CHR 0xA9] @ ''szp'' @ [CHR 0xC3, CHR 0xA9] @ ''nz''"

definition dij :: string where
  "dij = ''d'' @ [CHR 0xC3, CHR 0xAD] @ ''j''"

definition koltseg :: string where
  "koltseg = ''k'' @ [CHR 0xC3, CHR 0xB6] @ ''lts'' @ [CHR 0xC3, CHR 0xA9] @ ''g''"

text \<open>
  A \<open>for ... range\<close> over a Go map visits every key once, in an order that the language
  leaves open and the runtime changes from one loop to the next. The order a loop takes
  is an input of the model: a list of keys, \<open>range_order\<close> when it is an order of the
  map's keys.
\<close>

definition range_order :: "Config \<Rightarrow> string list \<Rightarrow> bool" where
  "range_order cfg ks =
     (distinct (map fst (Categories cfg)) \<and> distinct ks
      \<and> set ks = set (map fst (Categories cfg)))"

datatype panic = NilPointerDereference

text \<open>
  The two rule loops of \<open>Categorize\<close>. The inner loops return at the first entry that
  matches, so they are the tests \<open>matchesExact\<close> and \<open>matchesKeyword\<close>; reading a field of
  a nil \<open>*Category\<close> panics. A loop gives \<open>Inr (Some r)\<close> when it returned \<open>r\<close> from
  \<open>Categorize\<close> and \<open>Inr None\<close> when it ran to its end. A key that the map does not
  hold is passed over; no \<open>range_order\<close> of the map has one.
\<close>

definition matchesExact :: "string \<Rightarrow> Category \<Rightarrow> bool" where
  "matchesExact partnerName category =
     list_ex (\<lambda>exactMatch. partnerName = exactMatch) (ExactMatches category)"

definition matchesKeyword :: "unicode \<Rightarrow> string \<Rightarrow> Category \<Rightarrow> bool" where
  "matchesKeyword U partnerLower category =
     list_ex (\<lambda>keyword. Contains partnerLower (ToLower U keyword)) (Keywords category)"

fun rangeCategories ::
  "(Category \<Rightarrow> bool) \<Rightarrow> Config \<Rightarrow> string list \<Rightarrow> panic + (string \<times> string) option" where
  "rangeCategories matches cfg [] = Inr None"
| "rangeCategories matches cfg (categoryName # ks) =
     (case map_of (Categories cfg) categoryName of
        None \<Rightarrow> rangeCategories matches cfg ks
      | Some None \<Rightarrow> Inl NilPointerDereference
      | Some (Some category) \<Rightarrow>
          if matches category then Inr (Some (categoryName, SubCategory category))
          else rangeCategories matches cfg ks)"

definition typeFallback :: "string \<Rightarrow> string \<times> string" where
  "typeFallback typeLower =
     (if Contains typeLower jovairas \<or> Contains typeLower fizetes
      then (''Miscellaneous'', ''Other Income'')
      else if Contains typeLower hitel_torlesztes
      then (''Finance & Insurance'', ''Interest Expense'')
      else if Contains typeLower keszpenz
      then (''General Transfer'', ''Deposits & Withdrawals'')
      else if Contains typeLower dij \<or> Contains typeLower koltseg
      then (''Finance & Insurance'', ''Service Charge'')
      else (''Miscellaneous'', ''''))"

text \<open>
  \<open>Categorize\<close>: \<open>exactOrder\<close> and \<open>keywordOrder\<close> are the orders in which the first and
  the second loop visit the map.
\<close>

definition Categorize ::
  "unicode \<Rightarrow> Config \<Rightarrow> string list \<Rightarrow> string list \<Rightarrow> string \<Rightarrow> string
     \<Rightarrow> panic + (string \<times> string)" where
  "Categorize U cfg exactOrder keywordOrder partnerName transactionType =
     (let partnerLower = ToLower U partnerName;
          typeLower = ToLower U transactionType
      in case rangeCategories (matchesExact partnerName) cfg exactOrder of
           Inl p \<Rightarrow> Inl p
         | Inr (Some r) \<Rightarrow> Inr r
         | Inr None \<Rightarrow>
             (case rangeCategories (matchesKeyword U partnerLower) cfg keywordOrder of
                Inl p \<Rightarrow> Inl p
              | Inr (Some r) \<Rightarrow> Inr r
              | Inr None \<Rightarrow> Inr (typeFallback typeLower)))"

text \<open>
  \<open>GetUncategorizedPartners\<close>: the loop carries the slice \<open>uncategorized\<close> and the map
  \<open>seen\<close>. The method holds a pointer to the configuration, so the configuration it
  leaves behind is returned beside the result.
\<close>

fun uncategorized_loop ::
  "Config \<Rightarrow> string list \<Rightarrow> (string \<Rightarrow> bool) \<Rightarrow> string list \<Rightarrow> string list" where
  "uncategorized_loop cfg [] seen uncategorized = uncategorized"
| "uncategorized_loop cfg (p # partners) seen uncategorized =
     (let partner = TrimSpace p
      in if partner = [] then uncategorized_loop cfg partners seen uncategorized
         else if seen partner then uncategorized_loop cfg partners seen uncategorized
         else if IsKnownPartner cfg partner
         then uncategorized_loop cfg partners (seen(partner := True)) uncategorized
         else uncategorized_loop cfg partners (seen(partner := True))
                (uncategorized @ [partner]))"

definition GetUncategorizedPartners :: "Config \<Rightarrow> string list \<Rightarrow> string list \<times> Config" where
  "GetUncategorizedPartners cfg partners =
     (uncategorized_loop cfg partners (\<lambda>_. False) [], cfg)"

text \<open>
  The novelty detector in the words of the specification: the trimmed names that are
  not empty and not known, each kept at its first occurrence.
\<close>

fun first_seen :: "string list \<Rightarrow> string list" where
  "first_seen [] = []"
| "first_seen (x # xs) = x # first_seen (filter (\<lambda>y. y \<noteq> x) xs)"

definition findUnknown_spec :: "string list \<Rightarrow> string list \<Rightarrow> string list" where
  "findUnknown_spec known names =
     first_seen (filter (\<lambda>n. n \<noteq> [] \<and> n \<notin> set known) (map TrimSpace names))"

section \<open>Package anonymizer\<close>

record AnonymizationResult =
  Original :: string
  Anonymized :: string
  IsPersonal :: bool
  DetectionType :: string

record anonymizer_Config =
  OwnerName :: string

text \<open>
  \<open>accountNumberPattern\<close> is the regular expression \<open>^[A-Z]{2}\d{10,34}$\<close>: the whole
  string is two letters \<open>A\<close> to \<open>Z\<close> and then 10 to 34 digits \<open>0\<close> to \<open>9\<close> (in Go's syntax
  \<open>\d\<close> is an ASCII digit and \<open>$\<close> is the end of the text).
\<close>

definition isUpperAZ :: "char \<Rightarrow> bool" where
  "isUpperAZ c = (byte (CHR ''A'') \<le> byte c \<and> byte c \<le> byte (CHR ''Z''))"

definition isDigit :: "char \<Rightarrow> bool" where
  "isDigit c = (byte (CHR ''0'') \<le> byte c \<and> byte c \<le> byte (CHR ''9''))"

definition accountNumberPattern :: "string \<Rightarrow> bool" where
  "accountNumberPattern s =
     (case s of
        a # b # ds \<Rightarrow>
          isUpperAZ a \<and> isUpperAZ b \<and> 10 \<le> length ds \<and> length ds \<le> 34 \<and> list_all isDigit ds
      | _ \<Rightarrow> False)"

definition atutalas :: string where
  "atutalas = [CHR 0xC3, CHR 0xA1] @ ''tutal'' @ [CHR 0xC3, CHR 0xA1] @ ''s''"

definition atvezetes :: string where
  "atvezetes = [CHR 0xC3, CHR 0xA1] @ ''tvezet'' @ [CHR 0xC3, CHR 0xA9] @ ''s''"

text \<open>\<open>Anonymize\<close>; the configuration is a pointer that may be nil.\<close>

definition Anonymize ::
  "unicode \<Rightarrow> string \<Rightarrow> string \<Rightarrow> anonymizer_Config option \<Rightarrow> AnonymizationResult" where
  "Anonymize U merchantName transactionType cfg =
     (let trimmed = TrimSpace merchantName
      in if trimmed = []
         then \<lparr>Original = merchantName, Anonymized = merchantName,
               IsPersonal = False, DetectionType = ''none''\<rparr>
         else if accountNumberPattern trimmed
         then \<lparr>Original = merchantName, Anonymized = ''[ACCOUNT_NUMBER]'',
               IsPersonal = True, DetectionType = ''account_number''\<rparr>
         else if (case cfg of None \<Rightarrow> False
                  | Some c \<Rightarrow> OwnerName c \<noteq> [] \<and> EqualFold U trimmed (OwnerName c))
         then \<lparr>Original = merchantName, Anonymized = ''[OWNER_NAME]'',
               IsPersonal = True, DetectionType = ''owner_name''\<rparr>
         else let typeLower = ToLower U transactionType;
                  isTransfer = (Contains typeLower atutalas \<or> Contains typeLower atvezetes
                                \<or> Contains typeLower jovairas)
              in if isTransfer
                 then \<lparr>Original = merchantName, Anonymized = ''[TRANSFER_PARTNER]'',
                       IsPersonal = True, DetectionType = ''transfer_partner''\<rparr>
                 else \<lparr>Original = merchantName, Anonymized = merchantName,
                       IsPersonal = False, DetectionType = ''none''\<rparr>)"

text \<open>
  \<open>AnonymizeMerchantList\<close>: \<open>results\<close> starts as \<open>len(merchants)\<close> zero values and the loop
  stores into index \<open>i\<close>.
\<close>

definition zero_result :: AnonymizationResult where
  "zero_result = \<lparr>Original = [], Anonymized = [], IsPersonal = False, DetectionType = []\<rparr>"

fun merchant_loop ::
  "unicode \<Rightarrow> nat \<Rightarrow> string list \<Rightarrow> string list \<Rightarrow> anonymizer_Config option
     \<Rightarrow> AnonymizationResult list \<Rightarrow> AnonymizationResult list" where
  "merchant_loop U i [] transactionTypes cfg results = results"
| "merchant_loop U i (merchant # merchants) transactionTypes cfg results =
     (let transType = (if i < length transactionTypes then transactionTypes ! i else [])
      in merchant_loop U (Suc i) merchants transactionTypes cfg
           (results[i := Anonymize U merchant transType cfg]))"

definition AnonymizeMerchantList ::
  "unicode \<Rightarrow> string list \<Rightarrow> string list \<Rightarrow> anonymizer_Config option
     \<Rightarrow> AnonymizationResult list" where
  "AnonymizeMerchantList U merchants transactionTypes cfg =
     merchant_loop U 0 merchants transactionTypes cfg
       (replicate (length merchants) zero_result)"

section \<open>Configurations, files and labels used at concrete inputs\<close>

text \<open>The rule set of the end-to-end scenarios: one category with one keyword.\<close>

definition Food_RuleSet :: Config where
  "Food_RuleSet =
     \<lparr>KnownPartners = [],
      Categories = [(''Food & Drink'',
        Some \<lparr>SubCategory = ''Food'', Keywords = [''aldi''], ExactMatches = []\<rparr>)]\<rparr>"

text \<open>Two categories that both list the same exact match and the same keyword.\<close>

definition overlapping_RuleSet :: Config where
  "overlapping_RuleSet =
     \<lparr>KnownPartners = [],
      Categories =
        [(''Food & Drink'',
          Some \<lparr>SubCategory = ''Food'', Keywords = [''aldi''], ExactMatches = [''ALDI 241.SZ.'']\<rparr>),
         (''Housing & Houseware'',
          Some \<lparr>SubCategory = ''Electronics'', Keywords = [''aldi''],
                ExactMatches = [''ALDI 241.SZ.'']\<rparr>)]\<rparr>"

text \<open>
  Two categories where the exact match of one contains keywords of the other, and no
  entry is shared.
\<close>

definition exact_RuleSet :: Config where
  "exact_RuleSet =
     \<lparr>KnownPartners = [],
      Categories =
        [(''Food & Drink'',
          Some \<lparr>SubCategory = ''Food'', Keywords = [''auchan''], ExactMatches = [''ALDI 241.SZ.'']\<rparr>),
         (''Housing & Houseware'',
          Some \<lparr>SubCategory = ''Electronics'', Keywords = [''aldi'', ''241''],
                ExactMatches = [''EURONICS'']\<rparr>)]\<rparr>"

text \<open>
  Two transaction-type labels, as UTF-8 bytes: a parcel fee (\<open>Csomagd\<close>, i acute, \<open>j\<close>)
  and the fee of a cash withdrawal (\<open>K\<close>, e acute, \<open>szp\<close>, e acute, \<open>nzfelv\<close>, e acute,
  \<open>tel d\<close>, i acute, \<open>ja\<close>).
\<close>

definition fee_label :: string where
  "fee_label = ''Csomagd'' @ [CHR 0xC3, CHR 0xAD] @ ''j''"

definition cash_fee_label :: string where
  "cash_fee_label = ''K'' @ [CHR 0xC3, CHR 0xA9] @ ''szp'' @ [CHR 0xC3, CHR 0xA9] @ ''nzfelv''
                    @ [CHR 0xC3, CHR 0xA9] @ ''tel d'' @ [CHR 0xC3, CHR 0xAD] @ ''ja''"

text \<open>
  A file system whose \<open>categories.yaml\<close> holds one category with keywords and no
  \<open>subcategory\<close> key:
  \<^verbatim>\<open>
  categories:
    Food & Drink:
      keywords:
        - aldi
  \<close>
\<close>

definition missing_subcategory_fs :: filesystem where
  "missing_subcategory_fs path =
     (if path = ''categories.yaml''
      then File (Document
             \<lparr>yaml_known_partners = None,
              yaml_categories = Some [(''Food & Drink'',
                 Some \<lparr>yaml_subcategory = None, yaml_keywords = Some [''aldi''],
                       yaml_exact_matches = None\<rparr>)]\<rparr>)
      else NotExist)"

text \<open>
  One category lists the name as an exact match, and both categories hold a keyword
  that the name contains.
\<close>

definition keyword_overlap_RuleSet :: Config where
  "keyword_overlap_RuleSet =
     \<lparr>KnownPartners = [],
      Categories =
        [(''Food & Drink'',
          Some \<lparr>SubCategory = ''Food'', Keywords = [''aldi''], ExactMatches = [''ALDI 241.SZ.'']\<rparr>),
         (''Housing & Houseware'',
          Some \<lparr>SubCategory = ''Electronics'', Keywords = [''aldi''],
                ExactMatches = [''EURONICS'']\<rparr>)]\<rparr>"

text \<open>
  A file system whose \<open>categories.yaml\<close> holds a category key with no value before a
  complete category, and the rule set that file decodes to:
  \<^verbatim>\<open>
  categories:
    Clothing & Appearance:
    Food & Drink:
      subcategory: Food
      exact_matches:
        - ALDI 241.SZ.
  \<close>
\<close>

definition valueless_category_fs :: filesystem where
  "valueless_category_fs path =
     (if path = ''categories.yaml''
      then File (Document
             \<lparr>yaml_known_partners = None,
              yaml_categories = Some
                [(''Clothing & Appearance'', None),
                 (''Food & Drink'',
                  Some \<lparr>yaml_subcategory = Some ''Food'', yaml_keywords = None,
                        yaml_exact_matches = Some [''ALDI 241.SZ.'']\<rparr>)]\<rparr>)
      else NotExist)"

definition nil_rule_RuleSet :: Config where
  "nil_rule_RuleSet =
     \<lparr>KnownPartners = [],
      Categories =
        [(''Clothing & Appearance'', None),
         (''Food & Drink'',
          Some \<lparr>SubCategory = ''Food'', Keywords = [], ExactMatches = [''ALDI 241.SZ.'']\<rparr>)]\<rparr>"

text \<open>
  The rule that a loop over the keys \<open>ks\<close> returns, in the words of the specification:
  the first key, in the order of the visit, whose rule matches gives its name and its
  subcategory.
\<close>

definition rule_matches :: "(Category \<Rightarrow> bool) \<Rightarrow> Config \<Rightarrow> string \<Rightarrow> bool" where
  "rule_matches matches cfg k =
     (case map_of (Categories cfg) k of Some (Some c) \<Rightarrow> matches c | _ \<Rightarrow> False)"

definition rule_pair :: "Config \<Rightarrow> string \<Rightarrow> (string \<times> string) option" where
  "rule_pair cfg k =
     (case map_of (Categories cfg) k of Some (Some c) \<Rightarrow> Some (k, SubCategory c) | _ \<Rightarrow> None)"

definition first_matching_rule ::
  "(Category \<Rightarrow> bool) \<Rightarrow> Config \<Rightarrow> string list \<Rightarrow> (string \<times> string) option" where
  "first_matching_rule matches cfg ks =
     (case find (rule_matches matches cfg) ks of None \<Rightarrow> None | Some k \<Rightarrow> rule_pair cfg k)"

section \<open>The rule store: loading\<close>

lemma LoadConfig_absent: "fs path = NotExist \<Longrightarrow> LoadConfig fs path = Inl ErrNotExist"
  by (simp add: LoadConfig_def ReadFile_def)

lemma LoadConfig_fails_iff:
  "(\<exists>err. LoadConfig fs path = Inl err) \<longleftrightarrow>
     (case fs path of NotExist \<Rightarrow> True | Unreadable \<Rightarrow> True
      | File Malformed \<Rightarrow> True
      | File (Document d) \<Rightarrow> \<not> distinct (map fst (zero_or (yaml_categories d))))"
  by (auto simp: LoadConfig_def ReadFile_def Unmarshal_def
      split: file_state.splits content.splits)

text \<open>
  Claim C1, as stated, fails: the file of \<open>missing_subcategory_fs\<close> is present and its only
  category has no subcategory, and \<open>LoadConfig\<close> returns a configuration, in which that
  category has the empty subcategory.
\<close>

theorem LoadConfig_missing_subcategory_counterexample:
  "LoadConfig missing_subcategory_fs ''categories.yaml'' =
     Inr \<lparr>KnownPartners = [],
          Categories = [(''Food & Drink'',
             Some \<lparr>SubCategory = [], Keywords = [''aldi''], ExactMatches = []\<rparr>)]\<rparr>"
  by (simp add: LoadConfig_def ReadFile_def Unmarshal_def missing_subcategory_fs_def
      decode_Category_def zero_or_def)

text \<open>
  Claim C1, amended: \<open>LoadConfig\<close> does not check the subcategory. It fails exactly when
  the source is absent or cannot be read, or the decoder rejects it (malformed text, or
  a category key that is repeated). Every other source is loaded: a category written as
  a mapping whose subcategory is missing or empty becomes a rule with the empty
  subcategory, with its keywords and exact matches, and a category written with no value
  becomes a nil rule.
\<close>

theorem LoadConfig_subcategory_not_checked:
  "((\<exists>err. LoadConfig fs path = Inl err) \<longleftrightarrow>
      (case fs path of NotExist \<Rightarrow> True | Unreadable \<Rightarrow> True
       | File Malformed \<Rightarrow> True
       | File (Document d) \<Rightarrow> \<not> distinct (map fst (zero_or (yaml_categories d)))))
   \<and> (\<forall>d. fs path = File (Document d) \<longrightarrow>
          distinct (map fst (zero_or (yaml_categories d))) \<longrightarrow>
          (\<exists>cfg. LoadConfig fs path = Inr cfg
             \<and> (\<forall>name n. (name, Some n) \<in> set (zero_or (yaml_categories d)) \<longrightarrow>
                   yaml_subcategory n = None \<or> yaml_subcategory n = Some [] \<longrightarrow>
                   (name, Some \<lparr>SubCategory = [], Keywords = zero_or (yaml_keywords n),
                                ExactMatches = zero_or (yaml_exact_matches n)\<rparr>)
                     \<in> set (Categories cfg))
             \<and> (\<forall>name. (name, None) \<in> set (zero_or (yaml_categories d)) \<longrightarrow>
                   (name, None) \<in> set (Categories cfg))))"
proof (intro conjI allI impI)
  show "(\<exists>err. LoadConfig fs path = Inl err) \<longleftrightarrow>
      (case fs path of NotExist \<Rightarrow> True | Unreadable \<Rightarrow> True
       | File Malformed \<Rightarrow> True
       | File (Document d) \<Rightarrow> \<not> distinct (map fst (zero_or (yaml_categories d))))"
    by (rule LoadConfig_fails_iff)
next
  fix d
  assume src: "fs path = File (Document d)"
    and keys: "distinct (map fst (zero_or (yaml_categories d)))"
  let ?dec = "\<lambda>(name, n). (name, map_option decode_Category n)"
  let ?cfg = "\<lparr>KnownPartners = zero_or (yaml_known_partners d),
               Categories = map ?dec (zero_or (yaml_categories d))\<rparr>"
  have load: "LoadConfig fs path = Inr ?cfg"
    using src keys by (simp add: LoadConfig_def ReadFile_def Unmarshal_def)
  have rule: "(name, Some \<lparr>SubCategory = [], Keywords = zero_or (yaml_keywords n),
                             ExactMatches = zero_or (yaml_exact_matches n)\<rparr>)
                \<in> set (Categories ?cfg)"
    if mem: "(name, Some n) \<in> set (zero_or (yaml_categories d))"
      and sub: "yaml_subcategory n = None \<or> yaml_subcategory n = Some []" for name n
  proof -
    have "?dec (name, Some n) \<in> set (Categories ?cfg)"
      using mem by (simp only: Config.simps set_map) (rule imageI)
    moreover have "decode_Category n =
        \<lparr>SubCategory = [], Keywords = zero_or (yaml_keywords n),
         ExactMatches = zero_or (yaml_exact_matches n)\<rparr>"
      using sub by (auto simp: decode_Category_def zero_or_def)
    ultimately show ?thesis by simp
  qed
  have nil: "(name, None) \<in> set (Categories ?cfg)"
    if mem: "(name, None) \<in> set (zero_or (yaml_categories d))" for name
  proof -
    have "?dec (name, None) \<in> set (Categories ?cfg)"
      using mem by (simp only: Config.simps set_map) (rule imageI)
    then show ?thesis by simp
  qed
  from load rule nil
  show "\<exists>cfg. LoadConfig fs path = Inr cfg
          \<and> (\<forall>name n. (name, Some n) \<in> set (zero_or (yaml_categories d)) \<longrightarrow>
                yaml_subcategory n = None \<or> yaml_subcategory n = Some [] \<longrightarrow>
                (name, Some \<lparr>SubCategory = [], Keywords = zero_or (yaml_keywords n),
                             ExactMatches = zero_or (yaml_exact_matches n)\<rparr>)
                  \<in> set (Categories cfg))
          \<and> (\<forall>name. (name, None) \<in> set (zero_or (yaml_categories d)) \<longrightarrow>
                (name, None) \<in> set (Categories cfg))"
    by blast
qed

theorem LoadConfig_subcategory_not_checked_witness:
  "(\<nexists>err. LoadConfig missing_subcategory_fs ''categories.yaml'' = Inl err)
   \<and> (\<exists>cfg. LoadConfig missing_subcategory_fs ''categories.yaml'' = Inr cfg
        \<and> (''Food & Drink'', Some \<lparr>SubCategory = [], Keywords = [''aldi''], ExactMatches = []\<rparr>)
            \<in> set (Categories cfg))
   \<and> (\<exists>cfg. LoadConfig valueless_category_fs ''categories.yaml'' = Inr cfg
        \<and> (''Clothing & Appearance'', None) \<in> set (Categories cfg))"
proof -
  let ?n = "\<lparr>yaml_subcategory = None, yaml_keywords = Some [''aldi''],
             yaml_exact_matches = None\<rparr>"
  let ?d = "\<lparr>yaml_known_partners = None,
             yaml_categories = Some [(''Food & Drink'', Some ?n)]\<rparr>"
  let ?f = "\<lparr>yaml_subcategory = Some ''Food'', yaml_keywords = None,
             yaml_exact_matches = Some [''ALDI 241.SZ.'']\<rparr>"
  let ?e = "\<lparr>yaml_known_partners = None,
             yaml_categories = Some [(''Clothing & Appearance'', None), (''Food & Drink'', Some ?f)]\<rparr>"
  note missing = LoadConfig_subcategory_not_checked
    [where fs = missing_subcategory_fs and path = "''categories.yaml''"]
  note valueless = LoadConfig_subcategory_not_checked
    [where fs = valueless_category_fs and path = "''categories.yaml''"]
  have h1: "missing_subcategory_fs ''categories.yaml'' = File (Document ?d)"
    by (simp add: missing_subcategory_fs_def)
  have h2: "distinct (map fst (zero_or (yaml_categories ?d)))"
    by (simp add: zero_or_def)
  have h3: "(''Food & Drink'', Some ?n) \<in> set (zero_or (yaml_categories ?d))"
    by (simp add: zero_or_def)
  have h4: "yaml_subcategory ?n = None \<or> yaml_subcategory ?n = Some []"
    by simp
  have g1: "valueless_category_fs ''categories.yaml'' = File (Document ?e)"
    by (simp add: valueless_category_fs_def)
  have g2: "distinct (map fst (zero_or (yaml_categories ?e)))"
    by (simp add: zero_or_def)
  have g3: "(''Clothing & Appearance'', None) \<in> set (zero_or (yaml_categories ?e))"
    by (simp add: zero_or_def)
  have a: "\<nexists>err. LoadConfig missing_subcategory_fs ''categories.yaml'' = Inl err"
    using missing [THEN conjunct1] h1 h2 by simp
  from missing [THEN conjunct2, THEN spec, THEN mp, THEN mp, OF h1 h2]
  obtain cfg where cfg: "LoadConfig missing_subcategory_fs ''categories.yaml'' = Inr cfg"
    and rules: "\<forall>name n. (name, Some n) \<in> set (zero_or (yaml_categories ?d)) \<longrightarrow>
                   yaml_subcategory n = None \<or> yaml_subcategory n = Some [] \<longrightarrow>
                   (name, Some \<lparr>SubCategory = [], Keywords = zero_or (yaml_keywords n),
                                ExactMatches = zero_or (yaml_exact_matches n)\<rparr>)
                     \<in> set (Categories cfg)"
    by blast
  from rules h3 h4
  have "(''Food & Drink'', Some \<lparr>SubCategory = [], Keywords = zero_or (yaml_keywords ?n),
                                ExactMatches = zero_or (yaml_exact_matches ?n)\<rparr>)
          \<in> set (Categories cfg)"
    by blast
  then have b: "(''Food & Drink'', Some \<lparr>SubCategory = [], Keywords = [''aldi''], ExactMatches = []\<rparr>)
          \<in> set (Categories cfg)"
    by (simp add: zero_or_def)
  from valueless [THEN conjunct2, THEN spec, THEN mp, THEN mp, OF g1 g2]
  obtain cfg' where cfg': "LoadConfig valueless_category_fs ''categories.yaml'' = Inr cfg'"
    and nils: "\<forall>name. (name, None) \<in> set (zero_or (yaml_categories ?e)) \<longrightarrow>
                 (name, None) \<in> set (Categories cfg')"
    by blast
  from nils g3 have c: "(''Clothing & Appearance'', None) \<in> set (Categories cfg')"
    by blast
  from a cfg b cfg' c show ?thesis by blast
qed

text \<open>
  Claim C3: when the configuration source is absent, loading yields the empty rule set,
  with no category and no known counterparty, and no error. (\<open>LoadConfig\<close> itself
  returns the not-exist error of the read, see \<open>LoadConfig_absent\<close>; \<open>loadConfigOrDefault\<close>,
  through which both commands load, replaces it by the empty configuration.)
\<close>

theorem loadConfigOrDefault_absent:
  assumes "fs configPath = NotExist"
  shows "fst (loadConfigOrDefault fs configPath) = Inr \<lparr>KnownPartners = [], Categories = []\<rparr>"
  using assms
  by (simp add: loadConfigOrDefault_def LoadConfig_absent IsNotExist_def empty_Config_def)

theorem loadConfigOrDefault_absent_witness:
  "(\<lambda>path. NotExist) ''categories.yaml'' = NotExist
   \<and> fst (loadConfigOrDefault (\<lambda>path. NotExist) ''categories.yaml'') =
       Inr \<lparr>KnownPartners = [], Categories = []\<rparr>"
proof -
  have h: "(\<lambda>path :: string. NotExist) ''categories.yaml'' = NotExist"
    by simp
  show ?thesis
    using h loadConfigOrDefault_absent [of "\<lambda>path. NotExist" "''categories.yaml''", OF h]
    by simp
qed

section \<open>The categorization engine\<close>

text \<open>One step of a rule loop, and the loop when no rule or exactly one rule matches.\<close>

lemma rangeCategories_step:
  assumes "map_of (Categories cfg) a \<noteq> Some None"
    and "\<And>c. map_of (Categories cfg) a = Some (Some c) \<Longrightarrow> \<not> m c"
  shows "rangeCategories m cfg (a # ks) = rangeCategories m cfg ks"
proof (cases "map_of (Categories cfg) a")
  case None
  then show ?thesis by simp
next
  case (Some v)
  with assms(1) obtain c where v: "v = Some c" by (cases v) auto
  with Some assms(2) have "\<not> m c" by simp
  with Some v show ?thesis by simp
qed

lemma rangeCategories_none:
  assumes "\<And>k. k \<in> set ks \<Longrightarrow> map_of (Categories cfg) k \<noteq> Some None"
    and "\<And>k c. k \<in> set ks \<Longrightarrow> map_of (Categories cfg) k = Some (Some c) \<Longrightarrow> \<not> m c"
  shows "rangeCategories m cfg ks = Inr None"
  using assms
proof (induction ks)
  case Nil
  show ?case by simp
next
  case (Cons a ks)
  have "rangeCategories m cfg (a # ks) = rangeCategories m cfg ks"
  proof (rule rangeCategories_step)
    show "map_of (Categories cfg) a \<noteq> Some None"
      by (rule Cons.prems(1)) simp
    show "\<not> m c" if "map_of (Categories cfg) a = Some (Some c)" for c
      using that by (intro Cons.prems(2) [of a]) simp_all
  qed
  also have "\<dots> = Inr None"
  proof (rule Cons.IH)
    show "map_of (Categories cfg) k \<noteq> Some None" if "k \<in> set ks" for k
      using that by (intro Cons.prems(1)) simp
    show "\<not> m c" if "k \<in> set ks" "map_of (Categories cfg) k = Some (Some c)" for k c
      using that by (intro Cons.prems(2) [of k]) simp_all
  qed
  finally show ?case .
qed

lemma rangeCategories_unique:
  assumes "k \<in> set ks"
    and "map_of (Categories cfg) k = Some (Some c)"
    and "m c"
    and "\<And>k'. k' \<in> set ks \<Longrightarrow> map_of (Categories cfg) k' \<noteq> Some None"
    and "\<And>k' c'. k' \<in> set ks \<Longrightarrow> map_of (Categories cfg) k' = Some (Some c') \<Longrightarrow> m c'
           \<Longrightarrow> k' = k"
  shows "rangeCategories m cfg ks = Inr (Some (k, SubCategory c))"
  using assms(1,4,5)
proof (induction ks)
  case Nil
  then show ?case by simp
next
  case (Cons a ks)
  show ?case
  proof (cases "a = k")
    case True
    with assms(2,3) show ?thesis by simp
  next
    case False
    with Cons.prems(1) have k: "k \<in> set ks" by simp
    have "rangeCategories m cfg (a # ks) = rangeCategories m cfg ks"
    proof (rule rangeCategories_step)
      show "map_of (Categories cfg) a \<noteq> Some None"
        by (rule Cons.prems(2)) simp
      show "\<not> m c'" if "map_of (Categories cfg) a = Some (Some c')" for c'
      proof
        assume "m c'"
        with that have "a = k" by (intro Cons.prems(3)) simp_all
        with False show False by simp
      qed
    qed
    also have "\<dots> = Inr (Some (k, SubCategory c))"
      using k by (rule Cons.IH) (simp_all add: Cons.prems)
    finally show ?thesis .
  qed
qed

lemma range_order_lookup:
  assumes "range_order cfg ks"
  shows "map_of (Categories cfg) k = Some v \<longleftrightarrow> (k, v) \<in> set (Categories cfg)"
  using assms by (auto simp: range_order_def)

lemma range_order_mem:
  assumes "range_order cfg ks" and "(k, v) \<in> set (Categories cfg)"
  shows "k \<in> set ks"
  using assms by (force simp: range_order_def)

lemma range_loop_none:
  assumes ro: "range_order cfg ks"
    and nonil: "None \<notin> snd ` set (Categories cfg)"
    and none: "\<And>k c. (k, Some c) \<in> set (Categories cfg) \<Longrightarrow> \<not> m c"
  shows "rangeCategories m cfg ks = Inr None"
proof (rule rangeCategories_none)
  show "map_of (Categories cfg) k \<noteq> Some None" for k
    using nonil by (force simp: range_order_lookup [OF ro])
  show "\<not> m c" if "map_of (Categories cfg) k = Some (Some c)" for k c
    using none that by (simp add: range_order_lookup [OF ro])
qed

lemma range_loop_unique:
  assumes ro: "range_order cfg ks"
    and nonil: "None \<notin> snd ` set (Categories cfg)"
    and mem: "(k, Some c) \<in> set (Categories cfg)"
    and m: "m c"
    and uniq: "\<And>k' c'. (k', Some c') \<in> set (Categories cfg) \<Longrightarrow> m c' \<Longrightarrow> k' = k"
  shows "rangeCategories m cfg ks = Inr (Some (k, SubCategory c))"
proof (rule rangeCategories_unique)
  show "k \<in> set ks" using ro mem by (rule range_order_mem)
  show "map_of (Categories cfg) k = Some (Some c)"
    using mem by (simp add: range_order_lookup [OF ro])
  show "m c" by fact
  show "map_of (Categories cfg) k' \<noteq> Some None" for k'
    using nonil by (force simp: range_order_lookup [OF ro])
  show "k' = k" if "map_of (Categories cfg) k' = Some (Some c')" "m c'" for k' c'
    using uniq that by (simp add: range_order_lookup [OF ro])
qed

lemma matchesExact_iff: "matchesExact partnerName c \<longleftrightarrow> partnerName \<in> set (ExactMatches c)"
  by (auto simp: matchesExact_def list_ex_iff)

text \<open>
  The exact-match tier on a rule set without nil rules: a counterparty name that equals
  an entry of the exact matches of exactly one category is given that category's name
  and subcategory, in whatever order the map is visited, whatever keywords the other
  categories hold and whatever the transaction type is.
\<close>

theorem Categorize_exact_match:
  assumes "range_order cfg exactOrder"
    and "None \<notin> snd ` set (Categories cfg)"
    and "(categoryName, Some category) \<in> set (Categories cfg)"
    and "partnerName \<in> set (ExactMatches category)"
    and "\<And>name' category'. (name', Some category') \<in> set (Categories cfg) \<Longrightarrow>
           partnerName \<in> set (ExactMatches category') \<Longrightarrow> name' = categoryName"
  shows "Categorize U cfg exactOrder keywordOrder partnerName transactionType =
           Inr (categoryName, SubCategory category)"
proof -
  have "rangeCategories (matchesExact partnerName) cfg exactOrder =
          Inr (Some (categoryName, SubCategory category))"
    using assms(1-3)
  proof (rule range_loop_unique)
    show "matchesExact partnerName category"
      using assms(4) by (simp add: matchesExact_iff)
    show "\<And>k' c'. (k', Some c') \<in> set (Categories cfg) \<Longrightarrow> matchesExact partnerName c' \<Longrightarrow>
            k' = categoryName"
      using assms(5) by (simp add: matchesExact_iff)
  qed
  then show ?thesis
    by (simp add: Categorize_def)
qed

theorem Categorize_exact_match_witness:
  "range_order exact_RuleSet [''Housing & Houseware'', ''Food & Drink'']
   \<and> Contains (ToLower utf8_latin1 ''ALDI 241.SZ.'') ''aldi''
   \<and> Categorize utf8_latin1 exact_RuleSet [''Housing & Houseware'', ''Food & Drink'']
       [''Housing & Houseware'', ''Food & Drink''] ''ALDI 241.SZ.'' atutalas =
       Inr (''Food & Drink'', ''Food'')"
proof -
  let ?food = "\<lparr>SubCategory = ''Food'', Keywords = [''auchan''], ExactMatches = [''ALDI 241.SZ.'']\<rparr>"
  have h1: "range_order exact_RuleSet [''Housing & Houseware'', ''Food & Drink'']"
    by (auto simp: range_order_def exact_RuleSet_def)
  have h2: "None \<notin> snd ` set (Categories exact_RuleSet)"
    by (simp add: exact_RuleSet_def)
  have h3: "(''Food & Drink'', Some ?food) \<in> set (Categories exact_RuleSet)"
    by (simp add: exact_RuleSet_def)
  have h4: "''ALDI 241.SZ.'' \<in> set (ExactMatches ?food)"
    by simp
  have h6: "Contains (ToLower utf8_latin1 ''ALDI 241.SZ.'') ''aldi''"
    by code_simp
  have "Categorize utf8_latin1 exact_RuleSet [''Housing & Houseware'', ''Food & Drink'']
       [''Housing & Houseware'', ''Food & Drink''] ''ALDI 241.SZ.'' atutalas =
       Inr (''Food & Drink'', SubCategory ?food)"
  proof (rule Categorize_exact_match [OF h1 h2 h3 h4])
    fix name' category'
    assume "(name', Some category') \<in> set (Categories exact_RuleSet)"
      and "''ALDI 241.SZ.'' \<in> set (ExactMatches category')"
    then show "name' = ''Food & Drink''"
      by (auto simp: exact_RuleSet_def)
  qed
  with h1 h6 show ?thesis
    by (simp only: Category.simps simp_thms)
qed

text \<open>
  Claim C4 fails on a rule set that \<open>LoadConfig\<close> can return: the file of
  \<open>valueless_category_fs\<close> decodes to \<open>nil_rule_RuleSet\<close>, whose first category is a nil
  rule. The name is an exact match of the one other category; when the loop visits the
  nil rule first, \<open>Categorize\<close> panics instead of returning that category, and when it
  visits it last, \<open>Categorize\<close> returns the category.
\<close>

theorem Categorize_nil_rule_panics:
  "LoadConfig valueless_category_fs ''categories.yaml'' = Inr nil_rule_RuleSet
   \<and> range_order nil_rule_RuleSet [''Clothing & Appearance'', ''Food & Drink'']
   \<and> range_order nil_rule_RuleSet [''Food & Drink'', ''Clothing & Appearance'']
   \<and> Categorize utf8_latin1 nil_rule_RuleSet [''Clothing & Appearance'', ''Food & Drink'']
         [''Clothing & Appearance'', ''Food & Drink''] ''ALDI 241.SZ.'' ''Purchase''
       = Inl NilPointerDereference
   \<and> Categorize utf8_latin1 nil_rule_RuleSet [''Food & Drink'', ''Clothing & Appearance'']
         [''Food & Drink'', ''Clothing & Appearance''] ''ALDI 241.SZ.'' ''Purchase''
       = Inr (''Food & Drink'', ''Food'')"
proof -
  have "LoadConfig valueless_category_fs ''categories.yaml'' = Inr nil_rule_RuleSet"
    by (simp add: LoadConfig_def ReadFile_def Unmarshal_def valueless_category_fs_def
        decode_Category_def zero_or_def nil_rule_RuleSet_def)
  moreover have "range_order nil_rule_RuleSet [''Clothing & Appearance'', ''Food & Drink'']"
    "range_order nil_rule_RuleSet [''Food & Drink'', ''Clothing & Appearance'']"
    by (auto simp: range_order_def nil_rule_RuleSet_def)
  moreover have "Categorize utf8_latin1 nil_rule_RuleSet [''Clothing & Appearance'', ''Food & Drink'']
         [''Clothing & Appearance'', ''Food & Drink''] ''ALDI 241.SZ.'' ''Purchase''
       = Inl NilPointerDereference"
    by code_simp
  moreover have "Categorize utf8_latin1 nil_rule_RuleSet [''Food & Drink'', ''Clothing & Appearance'']
         [''Food & Drink'', ''Clothing & Appearance''] ''ALDI 241.SZ.'' ''Purchase''
       = Inr (''Food & Drink'', ''Food'')"
    by code_simp
  ultimately show ?thesis by (simp only: simp_thms)
qed

text \<open>
  Claim C2, as stated, fails: with \<open>overlapping_RuleSet\<close>, where two categories list the
  same exact match, the same name and transaction type are given one category when the
  loop visits the map in one order and the other category when it visits it in the
  other order. Both lists are orders of the map, and Go fixes none.
\<close>

theorem Categorize_order_counterexample:
  "range_order overlapping_RuleSet [''Food & Drink'', ''Housing & Houseware'']
   \<and> range_order overlapping_RuleSet [''Housing & Houseware'', ''Food & Drink'']
   \<and> Categorize utf8_latin1 overlapping_RuleSet [''Food & Drink'', ''Housing & Houseware'']
       [''Food & Drink'', ''Housing & Houseware''] ''ALDI 241.SZ.'' ''Purchase''
       = Inr (''Food & Drink'', ''Food'')
   \<and> Categorize utf8_latin1 overlapping_RuleSet [''Housing & Houseware'', ''Food & Drink'']
       [''Housing & Houseware'', ''Food & Drink''] ''ALDI 241.SZ.'' ''Purchase''
       = Inr (''Housing & Houseware'', ''Electronics'')"
proof -
  have "range_order overlapping_RuleSet [''Food & Drink'', ''Housing & Houseware'']"
    "range_order overlapping_RuleSet [''Housing & Houseware'', ''Food & Drink'']"
    by (auto simp: range_order_def overlapping_RuleSet_def)
  moreover have "Categorize utf8_latin1 overlapping_RuleSet [''Food & Drink'', ''Housing & Houseware'']
       [''Food & Drink'', ''Housing & Houseware''] ''ALDI 241.SZ.'' ''Purchase''
       = Inr (''Food & Drink'', ''Food'')"
    by code_simp
  moreover have "Categorize utf8_latin1 overlapping_RuleSet [''Housing & Houseware'', ''Food & Drink'']
       [''Housing & Houseware'', ''Food & Drink''] ''ALDI 241.SZ.'' ''Purchase''
       = Inr (''Housing & Houseware'', ''Electronics'')"
    by code_simp
  ultimately show ?thesis by simp
qed

lemma no_nil_lookup:
  assumes "None \<notin> snd ` set (Categories cfg)"
  shows "map_of (Categories cfg) k \<noteq> Some None"
proof
  assume "map_of (Categories cfg) k = Some None"
  then have "(k, None) \<in> set (Categories cfg)"
    by (rule map_of_SomeD)
  then have "snd (k, None :: Category option) \<in> snd ` set (Categories cfg)"
    by (rule imageI)
  with assms show False by simp
qed

lemma rangeCategories_first:
  assumes "\<And>k. map_of (Categories cfg) k \<noteq> Some None"
  shows "rangeCategories m cfg ks = Inr (first_matching_rule m cfg ks)"
proof (induction ks)
  case Nil
  show ?case by (simp add: first_matching_rule_def)
next
  case (Cons a ks)
  show ?case
  proof (cases "rule_matches m cfg a")
    case True
    then obtain c where c: "map_of (Categories cfg) a = Some (Some c)" and m: "m c"
      by (auto simp: rule_matches_def split: option.splits)
    from c m have "rangeCategories m cfg (a # ks) = Inr (Some (a, SubCategory c))"
      by simp
    moreover from True c have "first_matching_rule m cfg (a # ks) = Some (a, SubCategory c)"
      by (simp add: first_matching_rule_def rule_pair_def)
    ultimately show ?thesis by simp
  next
    case False
    have "rangeCategories m cfg (a # ks) = rangeCategories m cfg ks"
    proof (rule rangeCategories_step)
      show "map_of (Categories cfg) a \<noteq> Some None" by (rule assms)
      show "\<not> m c" if "map_of (Categories cfg) a = Some (Some c)" for c
        using False that by (simp add: rule_matches_def)
    qed
    moreover from False
    have "first_matching_rule m cfg (a # ks) = first_matching_rule m cfg ks"
      by (simp add: first_matching_rule_def)
    ultimately show ?thesis using Cons.IH by simp
  qed
qed

lemma Categorize_first_visited:
  assumes "None \<notin> snd ` set (Categories cfg)"
  shows "Categorize U cfg exactOrder keywordOrder partnerName transactionType =
           Inr (case first_matching_rule (matchesExact partnerName) cfg exactOrder of
                  Some r \<Rightarrow> r
                | None \<Rightarrow>
                    (case first_matching_rule (matchesKeyword U (ToLower U partnerName)) cfg
                            keywordOrder of
                       Some r \<Rightarrow> r
                     | None \<Rightarrow> typeFallback (ToLower U transactionType)))"
proof -
  have look: "\<And>k. map_of (Categories cfg) k \<noteq> Some None"
    using assms by (rule no_nil_lookup)
  have e: "rangeCategories (matchesExact partnerName) cfg exactOrder =
             Inr (first_matching_rule (matchesExact partnerName) cfg exactOrder)"
    using look by (rule rangeCategories_first)
  have k: "rangeCategories (matchesKeyword U (ToLower U partnerName)) cfg keywordOrder =
             Inr (first_matching_rule (matchesKeyword U (ToLower U partnerName)) cfg keywordOrder)"
    using look by (rule rangeCategories_first)
  show ?thesis
    unfolding Categorize_def Let_def e k
    by (simp split: option.splits)
qed

lemma range_loop_same:
  assumes nonil: "None \<notin> snd ` set (Categories cfg)"
    and ks: "range_order cfg ks" "range_order cfg ks'"
    and u: "\<And>k k' c c'. (k, Some c) \<in> set (Categories cfg) \<Longrightarrow>
               (k', Some c') \<in> set (Categories cfg) \<Longrightarrow> m c \<Longrightarrow> m c' \<Longrightarrow> k = k'"
  shows "rangeCategories m cfg ks = rangeCategories m cfg ks'"
proof (cases "\<exists>k c. (k, Some c) \<in> set (Categories cfg) \<and> m c")
  case True
  then obtain k c where kc: "(k, Some c) \<in> set (Categories cfg)" "m c" by blast
  have "rangeCategories m cfg ks = Inr (Some (k, SubCategory c))"
    using ks(1) nonil kc u [OF _ kc(1) _ kc(2)] by (rule range_loop_unique)
  moreover have "rangeCategories m cfg ks' = Inr (Some (k, SubCategory c))"
    using ks(2) nonil kc u [OF _ kc(1) _ kc(2)] by (rule range_loop_unique)
  ultimately show ?thesis by simp
next
  case False
  then have no: "\<And>k c. (k, Some c) \<in> set (Categories cfg) \<Longrightarrow> \<not> m c" by blast
  have "rangeCategories m cfg ks = Inr None"
    using ks(1) nonil no by (rule range_loop_none)
  moreover have "rangeCategories m cfg ks' = Inr None"
    using ks(2) nonil no by (rule range_loop_none)
  ultimately show ?thesis by simp
qed

lemma Categorize_same_result:
  assumes nonil: "None \<notin> snd ` set (Categories cfg)"
    and ro: "range_order cfg exactOrder" "range_order cfg exactOrder'"
      "range_order cfg keywordOrder" "range_order cfg keywordOrder'"
    and ue: "\<forall>k k' c c'. (k, Some c) \<in> set (Categories cfg) \<longrightarrow>
               (k', Some c') \<in> set (Categories cfg) \<longrightarrow>
               matchesExact partnerName c \<longrightarrow> matchesExact partnerName c' \<longrightarrow> k = k'"
    and uk: "(\<forall>k c. (k, Some c) \<in> set (Categories cfg) \<longrightarrow> \<not> matchesExact partnerName c) \<longrightarrow>
             (\<forall>k k' c c'. (k, Some c) \<in> set (Categories cfg) \<longrightarrow>
               (k', Some c') \<in> set (Categories cfg) \<longrightarrow>
               matchesKeyword U (ToLower U partnerName) c \<longrightarrow>
               matchesKeyword U (ToLower U partnerName) c' \<longrightarrow> k = k')"
  shows "Categorize U cfg exactOrder keywordOrder partnerName transactionType =
         Categorize U cfg exactOrder' keywordOrder' partnerName transactionType"
proof -
  have e: "rangeCategories (matchesExact partnerName) cfg exactOrder
         = rangeCategories (matchesExact partnerName) cfg exactOrder'"
    using nonil ro(1,2)
  proof (rule range_loop_same)
    show "k = k'" if "(k, Some c) \<in> set (Categories cfg)" "(k', Some c') \<in> set (Categories cfg)"
      "matchesExact partnerName c" "matchesExact partnerName c'" for k k' c c'
      using ue that by blast
  qed
  show ?thesis
  proof (cases "\<exists>k c. (k, Some c) \<in> set (Categories cfg) \<and> matchesExact partnerName c")
    case True
    then obtain k c where kc: "(k, Some c) \<in> set (Categories cfg)" "matchesExact partnerName c"
      by blast
    have "rangeCategories (matchesExact partnerName) cfg exactOrder' =
            Inr (Some (k, SubCategory c))"
      using ro(2) nonil kc
    proof (rule range_loop_unique)
      show "k' = k" if "(k', Some c') \<in> set (Categories cfg)" "matchesExact partnerName c'"
        for k' c'
        using ue that kc by blast
    qed
    with e have "rangeCategories (matchesExact partnerName) cfg exactOrder =
            Inr (Some (k, SubCategory c))"
      and "rangeCategories (matchesExact partnerName) cfg exactOrder' =
            Inr (Some (k, SubCategory c))"
      by simp_all
    then show ?thesis
      by (simp add: Categorize_def)
  next
    case False
    with uk have uk': "\<forall>k k' c c'. (k, Some c) \<in> set (Categories cfg) \<longrightarrow>
               (k', Some c') \<in> set (Categories cfg) \<longrightarrow>
               matchesKeyword U (ToLower U partnerName) c \<longrightarrow>
               matchesKeyword U (ToLower U partnerName) c' \<longrightarrow> k = k'"
      by blast
    have k: "rangeCategories (matchesKeyword U (ToLower U partnerName)) cfg keywordOrder
           = rangeCategories (matchesKeyword U (ToLower U partnerName)) cfg keywordOrder'"
      using nonil ro(3,4)
    proof (rule range_loop_same)
      show "k = k'" if "(k, Some c) \<in> set (Categories cfg)" "(k', Some c') \<in> set (Categories cfg)"
        "matchesKeyword U (ToLower U partnerName) c" "matchesKeyword U (ToLower U partnerName) c'"
        for k k' c c'
        using uk' that by blast
    qed
    show ?thesis
      unfolding Categorize_def Let_def e k by (rule refl)
  qed
qed

text \<open>
  Claim C2, amended: in a rule set without nil rules, \<open>Categorize\<close> returns the pair of the
  first rule, in the order in which the first loop of the call visits the map, that
  matches the name exactly; when no rule does, the pair of the first rule, in the order
  of the second loop, that matches the name by keyword; when no rule does, the pair of
  the transaction-type fallback. Two calls with the same name, transaction type and
  rule set therefore return the same pair, in whatever orders their loops visit the
  map, when at most one rule matches the name exactly and, in case no rule matches it
  exactly, at most one rule matches it by keyword.
\<close>

theorem Categorize_order_independent:
  assumes "None \<notin> snd ` set (Categories cfg)"
  shows "Categorize U cfg exactOrder keywordOrder partnerName transactionType =
           Inr (case first_matching_rule (matchesExact partnerName) cfg exactOrder of
                  Some r \<Rightarrow> r
                | None \<Rightarrow>
                    (case first_matching_rule (matchesKeyword U (ToLower U partnerName)) cfg
                            keywordOrder of
                       Some r \<Rightarrow> r
                     | None \<Rightarrow> typeFallback (ToLower U transactionType)))
         \<and> (range_order cfg exactOrder \<longrightarrow> range_order cfg exactOrder' \<longrightarrow>
            range_order cfg keywordOrder \<longrightarrow> range_order cfg keywordOrder' \<longrightarrow>
            (\<forall>k k' c c'. (k, Some c) \<in> set (Categories cfg) \<longrightarrow>
               (k', Some c') \<in> set (Categories cfg) \<longrightarrow>
               matchesExact partnerName c \<longrightarrow> matchesExact partnerName c' \<longrightarrow> k = k') \<longrightarrow>
            ((\<forall>k c. (k, Some c) \<in> set (Categories cfg) \<longrightarrow> \<not> matchesExact partnerName c) \<longrightarrow>
             (\<forall>k k' c c'. (k, Some c) \<in> set (Categories cfg) \<longrightarrow>
               (k', Some c') \<in> set (Categories cfg) \<longrightarrow>
               matchesKeyword U (ToLower U partnerName) c \<longrightarrow>
               matchesKeyword U (ToLower U partnerName) c' \<longrightarrow> k = k')) \<longrightarrow>
            Categorize U cfg exactOrder keywordOrder partnerName transactionType =
            Categorize U cfg exactOrder' keywordOrder' partnerName transactionType)"
proof (intro conjI impI)
  show "Categorize U cfg exactOrder keywordOrder partnerName transactionType =
           Inr (case first_matching_rule (matchesExact partnerName) cfg exactOrder of
                  Some r \<Rightarrow> r
                | None \<Rightarrow>
                    (case first_matching_rule (matchesKeyword U (ToLower U partnerName)) cfg
                            keywordOrder of
                       Some r \<Rightarrow> r
                     | None \<Rightarrow> typeFallback (ToLower U transactionType)))"
    using assms by (rule Categorize_first_visited)
next
  assume "range_order cfg exactOrder" "range_order cfg exactOrder'"
    "range_order cfg keywordOrder" "range_order cfg keywordOrder'"
    "\<forall>k k' c c'. (k, Some c) \<in> set (Categories cfg) \<longrightarrow>
               (k', Some c') \<in> set (Categories cfg) \<longrightarrow>
               matchesExact partnerName c \<longrightarrow> matchesExact partnerName c' \<longrightarrow> k = k'"
    "(\<forall>k c. (k, Some c) \<in> set (Categories cfg) \<longrightarrow> \<not> matchesExact partnerName c) \<longrightarrow>
             (\<forall>k k' c c'. (k, Some c) \<in> set (Categories cfg) \<longrightarrow>
               (k', Some c') \<in> set (Categories cfg) \<longrightarrow>
               matchesKeyword U (ToLower U partnerName) c \<longrightarrow>
               matchesKeyword U (ToLower U partnerName) c' \<longrightarrow> k = k')"
  with assms
  show "Categorize U cfg exactOrder keywordOrder partnerName transactionType =
        Categorize U cfg exactOrder' keywordOrder' partnerName transactionType"
    by (rule Categorize_same_result)
qed

theorem Categorize_order_independent_witness:
  "range_order keyword_overlap_RuleSet [''Food & Drink'', ''Housing & Houseware'']
   \<and> range_order keyword_overlap_RuleSet [''Housing & Houseware'', ''Food & Drink'']
   \<and> Categorize utf8_latin1 keyword_overlap_RuleSet [''Food & Drink'', ''Housing & Houseware'']
         [''Food & Drink'', ''Housing & Houseware''] ''ALDI 241.SZ.'' ''Purchase''
       = Categorize utf8_latin1 keyword_overlap_RuleSet [''Housing & Houseware'', ''Food & Drink'']
         [''Housing & Houseware'', ''Food & Drink''] ''ALDI 241.SZ.'' ''Purchase''
   \<and> Categorize utf8_latin1 keyword_overlap_RuleSet [''Housing & Houseware'', ''Food & Drink'']
         [''Housing & Houseware'', ''Food & Drink''] ''ALDI 241.SZ.'' ''Purchase''
       = Inr (''Food & Drink'', ''Food'')"
proof -
  let ?food = "\<lparr>SubCategory = ''Food'', Keywords = [''aldi''], ExactMatches = [''ALDI 241.SZ.'']\<rparr>"
  let ?housing = "\<lparr>SubCategory = ''Electronics'', Keywords = [''aldi''],
                   ExactMatches = [''EURONICS'']\<rparr>"
  let ?FH = "[''Food & Drink'', ''Housing & Houseware'']"
  let ?HF = "[''Housing & Houseware'', ''Food & Drink'']"
  have cats: "Categories keyword_overlap_RuleSet =
                [(''Food & Drink'', Some ?food), (''Housing & Houseware'', Some ?housing)]"
    by (simp add: keyword_overlap_RuleSet_def)
  have h1: "range_order keyword_overlap_RuleSet ?FH"
    by (auto simp: range_order_def keyword_overlap_RuleSet_def)
  have h2: "range_order keyword_overlap_RuleSet ?HF"
    by (auto simp: range_order_def keyword_overlap_RuleSet_def)
  have h3: "None \<notin> snd ` set (Categories keyword_overlap_RuleSet)"
    by (simp add: cats)
  have yes: "matchesExact ''ALDI 241.SZ.'' ?food"
    and no: "\<not> matchesExact ''ALDI 241.SZ.'' ?housing"
    by (simp_all add: matchesExact_def)
  have ue: "\<forall>k k' c c'. (k, Some c) \<in> set (Categories keyword_overlap_RuleSet) \<longrightarrow>
               (k', Some c') \<in> set (Categories keyword_overlap_RuleSet) \<longrightarrow>
               matchesExact ''ALDI 241.SZ.'' c \<longrightarrow> matchesExact ''ALDI 241.SZ.'' c' \<longrightarrow> k = k'"
    using no by (auto simp: cats)
  have mem: "(''Food & Drink'', Some ?food) \<in> set (Categories keyword_overlap_RuleSet)"
    by (simp add: cats)
  have uk: "(\<forall>k c. (k, Some c) \<in> set (Categories keyword_overlap_RuleSet) \<longrightarrow>
                \<not> matchesExact ''ALDI 241.SZ.'' c) \<longrightarrow>
             (\<forall>k k' c c'. (k, Some c) \<in> set (Categories keyword_overlap_RuleSet) \<longrightarrow>
               (k', Some c') \<in> set (Categories keyword_overlap_RuleSet) \<longrightarrow>
               matchesKeyword utf8_latin1 (ToLower utf8_latin1 ''ALDI 241.SZ.'') c \<longrightarrow>
               matchesKeyword utf8_latin1 (ToLower utf8_latin1 ''ALDI 241.SZ.'') c' \<longrightarrow> k = k')"
  proof
    assume "\<forall>k c. (k, Some c) \<in> set (Categories keyword_overlap_RuleSet) \<longrightarrow>
                \<not> matchesExact ''ALDI 241.SZ.'' c"
    with mem have n: "\<not> matchesExact ''ALDI 241.SZ.'' ?food" by blast
    from n yes show "\<forall>k k' c c'. (k, Some c) \<in> set (Categories keyword_overlap_RuleSet) \<longrightarrow>
               (k', Some c') \<in> set (Categories keyword_overlap_RuleSet) \<longrightarrow>
               matchesKeyword utf8_latin1 (ToLower utf8_latin1 ''ALDI 241.SZ.'') c \<longrightarrow>
               matchesKeyword utf8_latin1 (ToLower utf8_latin1 ''ALDI 241.SZ.'') c' \<longrightarrow> k = k'"
      by (rule notE)
  qed
  note T = Categorize_order_independent [OF h3, where U = utf8_latin1
      and partnerName = "''ALDI 241.SZ.''" and transactionType = "''Purchase''"]
  have same: "Categorize utf8_latin1 keyword_overlap_RuleSet ?FH ?FH ''ALDI 241.SZ.'' ''Purchase''
       = Categorize utf8_latin1 keyword_overlap_RuleSet ?HF ?HF ''ALDI 241.SZ.'' ''Purchase''"
    by (rule T [where exactOrder = ?FH and keywordOrder = ?FH and exactOrder' = ?HF
          and keywordOrder' = ?HF, THEN conjunct2, THEN mp, THEN mp, THEN mp, THEN mp, THEN mp,
          THEN mp, OF h1 h2 h1 h2 ue uk])
  have fm: "first_matching_rule (matchesExact ''ALDI 241.SZ.'') keyword_overlap_RuleSet ?HF =
              Some (''Food & Drink'', ''Food'')"
    by (simp add: first_matching_rule_def rule_matches_def rule_pair_def cats matchesExact_def)
  have val: "Categorize utf8_latin1 keyword_overlap_RuleSet ?HF ?HF ''ALDI 241.SZ.'' ''Purchase''
       = Inr (''Food & Drink'', ''Food'')"
    using T [where exactOrder = ?HF and keywordOrder = ?HF, THEN conjunct1]
    by (simp only: fm option.case)
  from h1 h2 same val show ?thesis
    by (simp only: simp_thms)
qed

lemma ToLower_ASCII: "isASCII s \<Longrightarrow> ToLower U s = map lowerASCII s"
  by (simp add: ToLower_def)

lemma range_order_Food: 
  assumes "range_order Food_RuleSet ks" shows "ks = [''Food & Drink'']"
proof -
  from assms have d: "distinct ks" and s: "set ks = {''Food & Drink''}"
    by (simp_all add: range_order_def Food_RuleSet_def)
  from s obtain k ks' where ks: "ks = k # ks'" by (cases ks) auto
  with s have k: "k = ''Food & Drink''" by auto
  from ks d s k have "ks' = []" by (cases ks') auto
  with ks k show ?thesis by simp
qed

text \<open>
  Claim C7, as stated, fails: the label of \<open>cash_fee_label\<close> contains the fee phrase, and
  it contains the cash phrase as well, which is tested first; the result is the pair of
  the cash phrase.
\<close>

theorem Categorize_fee_fallback_counterexample:
  "Contains (ToLower utf8_latin1 cash_fee_label) dij
   \<and> Categorize utf8_latin1 Food_RuleSet [''Food & Drink''] [''Food & Drink'']
         ''Unknown Shop'' cash_fee_label = Inr (''General Transfer'', ''Deposits & Withdrawals'')"
  by code_simp

text \<open>
  Claim C7, amended: with the rule set \<open>Food_RuleSet\<close> and the counterparty
  \<open>Unknown Shop\<close>, every transaction type whose lower-cased label contains a fee phrase
  and none of the phrases tested before it (the two credit phrases, the loan phrase, the
  cash phrase) gives \<open>Finance & Insurance\<close> and \<open>Service Charge\<close>.
\<close>

theorem Categorize_fee_fallback:
  assumes "range_order Food_RuleSet exactOrder" and "range_order Food_RuleSet keywordOrder"
    and "Contains (ToLower U transactionType) dij \<or> Contains (ToLower U transactionType) koltseg"
    and "\<not> Contains (ToLower U transactionType) jovairas"
    and "\<not> Contains (ToLower U transactionType) fizetes"
    and "\<not> Contains (ToLower U transactionType) hitel_torlesztes"
    and "\<not> Contains (ToLower U transactionType) keszpenz"
  shows "Categorize U Food_RuleSet exactOrder keywordOrder ''Unknown Shop'' transactionType =
           Inr (''Finance & Insurance'', ''Service Charge'')"
proof -
  have e: "exactOrder = [''Food & Drink'']" and k: "keywordOrder = [''Food & Drink'']"
    using assms(1,2) by (simp_all add: range_order_Food)
  have a1: "isASCII ''Unknown Shop''" and a2: "isASCII ''aldi''"
    by code_simp+
  have l1: "map lowerASCII ''Unknown Shop'' = ''unknown shop''"
    and l2: "map lowerASCII ''aldi'' = ''aldi''"
    by code_simp+
  have nc: "\<not> Contains ''unknown shop'' ''aldi''"
    by code_simp
  have t1: "ToLower U ''Unknown Shop'' = ''unknown shop''"
    using a1 l1 by (simp only: ToLower_ASCII)
  have t2: "ToLower U ''aldi'' = ''aldi''"
    using a2 l2 by (simp only: ToLower_ASCII)
  have "\<not> matchesKeyword U (ToLower U ''Unknown Shop'')
            \<lparr>SubCategory = ''Food'', Keywords = [''aldi''], ExactMatches = []\<rparr>"
    unfolding matchesKeyword_def t1 using nc t2 by simp
  then have kw: "rangeCategories (matchesKeyword U (ToLower U ''Unknown Shop'')) Food_RuleSet
              [''Food & Drink''] = Inr None"
    by (simp add: Food_RuleSet_def)
  have ex: "rangeCategories (matchesExact ''Unknown Shop'') Food_RuleSet [''Food & Drink''] = Inr None"
    by (simp add: Food_RuleSet_def matchesExact_def)
  from assms(3-7) have fb: "typeFallback (ToLower U transactionType) =
      (''Finance & Insurance'', ''Service Charge'')"
    by (simp add: typeFallback_def)
  show ?thesis
    unfolding Categorize_def Let_def e k ex kw fb by (simp only: sum.case option.case)
qed

theorem Categorize_fee_fallback_witness:
  "range_order Food_RuleSet [''Food & Drink'']
   \<and> Contains (ToLower utf8_latin1 fee_label) dij
   \<and> \<not> Contains (ToLower utf8_latin1 fee_label) jovairas
   \<and> \<not> Contains (ToLower utf8_latin1 fee_label) fizetes
   \<and> \<not> Contains (ToLower utf8_latin1 fee_label) hitel_torlesztes
   \<and> \<not> Contains (ToLower utf8_latin1 fee_label) keszpenz
   \<and> Categorize utf8_latin1 Food_RuleSet [''Food & Drink''] [''Food & Drink'']
         ''Unknown Shop'' fee_label = Inr (''Finance & Insurance'', ''Service Charge'')"
proof -
  have h1: "range_order Food_RuleSet [''Food & Drink'']"
    by (simp add: range_order_def Food_RuleSet_def)
  have h2: "Contains (ToLower utf8_latin1 fee_label) dij"
    by code_simp
  have h3: "\<not> Contains (ToLower utf8_latin1 fee_label) jovairas"
    by code_simp
  have h4: "\<not> Contains (ToLower utf8_latin1 fee_label) fizetes"
    by code_simp
  have h5: "\<not> Contains (ToLower utf8_latin1 fee_label) hitel_torlesztes"
    by code_simp
  have h6: "\<not> Contains (ToLower utf8_latin1 fee_label) keszpenz"
    by code_simp
  have "Categorize utf8_latin1 Food_RuleSet [''Food & Drink''] [''Food & Drink'']
         ''Unknown Shop'' fee_label = Inr (''Finance & Insurance'', ''Service Charge'')"
    using h1 h1 disjI1 [OF h2] h3 h4 h5 h6 by (rule Categorize_fee_fallback)
  with h1 h2 h3 h4 h5 h6 show ?thesis
    by (simp only: simp_thms)
qed

section \<open>The novelty detector\<close>

lemma IsKnownPartner_iff: "IsKnownPartner cfg partner \<longleftrightarrow> partner \<in> set (KnownPartners cfg)"
  by (auto simp: IsKnownPartner_def list_ex_iff)

lemma filter_seen_update:
  "filter (\<lambda>y. y \<noteq> x) (filter (\<lambda>n. n \<noteq> [] \<and> \<not> seen n \<and> n \<notin> K) xs)
     = filter (\<lambda>n. n \<noteq> [] \<and> \<not> (seen(x := True)) n \<and> n \<notin> K) xs"
  by (induction xs) auto

lemma filter_seen_known:
  "x \<in> K \<Longrightarrow>
   filter (\<lambda>n. n \<noteq> [] \<and> \<not> (seen(x := True)) n \<and> n \<notin> K) xs
     = filter (\<lambda>n. n \<noteq> [] \<and> \<not> seen n \<and> n \<notin> K) xs"
  by (induction xs) auto

lemma uncategorized_loop_eq:
  "uncategorized_loop cfg partners seen acc =
     acc @ first_seen (filter (\<lambda>n. n \<noteq> [] \<and> \<not> seen n \<and> n \<notin> set (KnownPartners cfg))
                          (map TrimSpace partners))"
proof (induction partners arbitrary: seen acc)
  case Nil
  then show ?case by simp
next
  case (Cons p partners)
  define x where "x = TrimSpace p"
  define K where "K = set (KnownPartners cfg)"
  define rest where "rest = map TrimSpace partners"
  have IH: "\<And>seen acc. uncategorized_loop cfg partners seen acc =
             acc @ first_seen (filter (\<lambda>n. n \<noteq> [] \<and> \<not> seen n \<and> n \<notin> K) rest)"
    unfolding K_def rest_def by (rule Cons.IH)
  have goal: "uncategorized_loop cfg (p # partners) seen acc =
      acc @ first_seen (filter (\<lambda>n. n \<noteq> [] \<and> \<not> seen n \<and> n \<notin> K) (x # rest))"
  proof (cases "x = [] \<or> seen x")
    case True
    then show ?thesis
      by (auto simp: Let_def IH x_def [symmetric])
  next
    case False
    show ?thesis
    proof (cases "x \<in> K")
      case True
      with False show ?thesis
        by (simp add: Let_def IH x_def [symmetric] IsKnownPartner_iff K_def [symmetric]
            filter_seen_known del: fun_upd_apply)
    next
      case notin: False
      with False show ?thesis
        by (simp add: Let_def IH x_def [symmetric] IsKnownPartner_iff K_def [symmetric]
            filter_seen_update [symmetric] del: fun_upd_apply)
    qed
  qed
  then show ?case
    by (simp add: x_def K_def rest_def)
qed

text \<open>
  Claim C8: \<open>GetUncategorizedPartners\<close> returns the trimmed names that are not empty and
  not among the known counterparties, each once, in the order of their first occurrence,
  and leaves the configuration as it was; on the names \<open>A\<close>, \<open>B\<close>, \<open>A\<close>, the empty name and
  \<open>C\<close> between blanks, with \<open>B\<close> known, it returns \<open>A\<close> and \<open>C\<close>.
\<close>

theorem GetUncategorizedPartners_findUnknown:
  "GetUncategorizedPartners cfg partners = (findUnknown_spec (KnownPartners cfg) partners, cfg)
   \<and> fst (GetUncategorizedPartners \<lparr>KnownPartners = [''B''], Categories = cs\<rparr>
            [''A'', ''B'', ''A'', '''', ''  C  '']) = [''A'', ''C'']"
proof -
  have gen: "\<And>cfg partners. GetUncategorizedPartners cfg partners
               = (findUnknown_spec (KnownPartners cfg) partners, cfg)"
    by (simp add: GetUncategorizedPartners_def findUnknown_spec_def uncategorized_loop_eq)
  have t: "map TrimSpace [''A'', ''B'', ''A'', '''', ''  C  ''] = [''A'', ''B'', ''A'', '''', ''C'']"
    by code_simp
  have "findUnknown_spec [''B''] [''A'', ''B'', ''A'', '''', ''  C  ''] = [''A'', ''C'']"
    unfolding findUnknown_spec_def t by simp
  with gen show ?thesis by simp
qed

section \<open>The redaction engine\<close>










text \<open>
  Claim C9: whenever the result of \<open>Anonymize\<close> is not personal, its redacted value and
  its original are the input name, unchanged, and its detection type is \<open>none\<close>.
\<close>

theorem Anonymize_not_personal_unchanged:
  assumes "\<not> IsPersonal (Anonymize U merchantName transactionType cfg)"
  shows "Anonymized (Anonymize U merchantName transactionType cfg) = merchantName
         \<and> Original (Anonymize U merchantName transactionType cfg) = merchantName
         \<and> DetectionType (Anonymize U merchantName transactionType cfg) = ''none''"
  using assms by (simp add: Anonymize_def Let_def split: if_splits)

theorem Anonymize_not_personal_unchanged_witness:
  "\<not> IsPersonal (Anonymize utf8_latin1 ''ALDI 241.SZ.'' ''Purchase'' None)
   \<and> Anonymized (Anonymize utf8_latin1 ''ALDI 241.SZ.'' ''Purchase'' None) = ''ALDI 241.SZ.''
   \<and> Original (Anonymize utf8_latin1 ''ALDI 241.SZ.'' ''Purchase'' None) = ''ALDI 241.SZ.''
   \<and> DetectionType (Anonymize utf8_latin1 ''ALDI 241.SZ.'' ''Purchase'' None) = ''none''"
proof -
  have h: "\<not> IsPersonal (Anonymize utf8_latin1 ''ALDI 241.SZ.'' ''Purchase'' None)"
    by code_simp
  show ?thesis
    using h Anonymize_not_personal_unchanged [OF h] by simp
qed

lemma EqualFold_Nil: "EqualFold U [] t = (t = [])"
  by (cases t) auto

lemma Anonymize_owner_name_trimmed:
  assumes "\<not> accountNumberPattern (TrimSpace merchantName)"
    and "OwnerName c \<noteq> []"
    and "EqualFold U (TrimSpace merchantName) (OwnerName c)"
  shows "Anonymize U merchantName transactionType (Some c) =
           \<lparr>Original = merchantName, Anonymized = ''[OWNER_NAME]'',
            IsPersonal = True, DetectionType = ''owner_name''\<rparr>"
proof -
  have "TrimSpace merchantName \<noteq> []"
    using assms(2,3) by (auto simp: EqualFold_Nil)
  with assms show ?thesis
    by (simp add: Anonymize_def)
qed

text \<open>
  Claim C5: a counterparty name as the record source supplies it, without surrounding
  white space, that is not an account number and equals a non-empty owner name, letter
  case aside, is classified as the owner's name, personal, and redacted to the
  owner-name placeholder, whatever the transaction type is; a transfer phrase in the
  label does not change the result.
\<close>

theorem Anonymize_owner_name:
  assumes "TrimSpace merchantName = merchantName"
    and "\<not> accountNumberPattern merchantName"
    and "OwnerName c \<noteq> []"
    and "EqualFold U merchantName (OwnerName c)"
  shows "Anonymize U merchantName transactionType (Some c) =
           \<lparr>Original = merchantName, Anonymized = ''[OWNER_NAME]'',
            IsPersonal = True, DetectionType = ''owner_name''\<rparr>"
proof (rule Anonymize_owner_name_trimmed)
  show "\<not> accountNumberPattern (TrimSpace merchantName)"
    using assms(1,2) by simp
  show "OwnerName c \<noteq> []" by fact
  show "EqualFold U (TrimSpace merchantName) (OwnerName c)"
    using assms(1,4) by simp
qed

theorem Anonymize_owner_name_witness:
  "TrimSpace ''VIGH DANIEL'' = ''VIGH DANIEL''
   \<and> \<not> accountNumberPattern ''VIGH DANIEL''
   \<and> OwnerName \<lparr>OwnerName = ''Vigh Daniel''\<rparr> \<noteq> []
   \<and> EqualFold utf8_latin1 ''VIGH DANIEL'' (OwnerName \<lparr>OwnerName = ''Vigh Daniel''\<rparr>)
   \<and> Contains (ToLower utf8_latin1 (''Forint '' @ atutalas)) atutalas
   \<and> Anonymize utf8_latin1 ''VIGH DANIEL'' (''Forint '' @ atutalas) (Some \<lparr>OwnerName = ''Vigh Daniel''\<rparr>) =
       \<lparr>Original = ''VIGH DANIEL'', Anonymized = ''[OWNER_NAME]'',
        IsPersonal = True, DetectionType = ''owner_name''\<rparr>"
proof -
  have h0: "TrimSpace ''VIGH DANIEL'' = ''VIGH DANIEL''"
    by code_simp
  have h1: "\<not> accountNumberPattern ''VIGH DANIEL''"
    by code_simp
  have h2: "OwnerName \<lparr>OwnerName = ''Vigh Daniel''\<rparr> \<noteq> []"
    by simp
  have h3: "EqualFold utf8_latin1 ''VIGH DANIEL'' (OwnerName \<lparr>OwnerName = ''Vigh Daniel''\<rparr>)"
    by code_simp
  have h4: "Contains (ToLower utf8_latin1 (''Forint '' @ atutalas)) atutalas"
    by code_simp
  have "Anonymize utf8_latin1 ''VIGH DANIEL'' (''Forint '' @ atutalas)
          (Some \<lparr>OwnerName = ''Vigh Daniel''\<rparr>) =
       \<lparr>Original = ''VIGH DANIEL'', Anonymized = ''[OWNER_NAME]'',
        IsPersonal = True, DetectionType = ''owner_name''\<rparr>"
    using h0 h1 h2 h3 by (rule Anonymize_owner_name)
  with h0 h1 h2 h3 h4 show ?thesis
    by (simp only: simp_thms)
qed

lemma merchant_loop_length:
  "length (merchant_loop U i ms tts cfg results) = length results"
  by (induction ms arbitrary: i results) (simp_all add: Let_def)

lemma merchant_loop_nth:
  assumes "length results = i + length ms" and "j < length results"
  shows "merchant_loop U i ms tts cfg results ! j =
           (if j < i then results ! j
            else Anonymize U (ms ! (j - i)) (if j < length tts then tts ! j else []) cfg)"
  using assms
proof (induction ms arbitrary: i results)
  case Nil
  then show ?case by simp
next
  case (Cons m ms)
  let ?r = "results[i := Anonymize U m (if i < length tts then tts ! i else []) cfg]"
  have len: "length ?r = Suc i + length ms"
    using Cons.prems(1) by simp
  have j: "j < length ?r"
    using Cons.prems(2) by simp
  have "merchant_loop U i (m # ms) tts cfg results ! j = merchant_loop U (Suc i) ms tts cfg ?r ! j"
    by (simp add: Let_def)
  also have "\<dots> = (if j < Suc i then ?r ! j
            else Anonymize U (ms ! (j - Suc i)) (if j < length tts then tts ! j else []) cfg)"
    using Cons.IH [OF len j] .
  also have "\<dots> = (if j < i then results ! j
            else Anonymize U ((m # ms) ! (j - i)) (if j < length tts then tts ! j else []) cfg)"
  proof (cases "j < i")
    case True
    then show ?thesis by simp
  next
    case False
    show ?thesis
    proof (cases "j = i")
      case True
      with Cons.prems show ?thesis by simp
    next
      case ne: False
      with False have "i < j" by simp
      then obtain k where "j - i = Suc k" "j - Suc i = k"
        by (metis Suc_diff_Suc)
      with False \<open>i < j\<close> show ?thesis by simp
    qed
  qed
  finally show ?case .
qed

text \<open>
  Claim C10: \<open>AnonymizeMerchantList\<close> returns one result for each merchant name, in the
  order of the names; the result at index \<open>i\<close> is \<open>Anonymize\<close> of the name at \<open>i\<close> with
  the transaction type at \<open>i\<close>, or with the empty transaction type when the list of types
  has no index \<open>i\<close>.
\<close>

theorem AnonymizeMerchantList_pointwise:
  "length (AnonymizeMerchantList U merchants transactionTypes cfg) = length merchants
   \<and> (\<forall>i < length merchants.
        AnonymizeMerchantList U merchants transactionTypes cfg ! i =
          Anonymize U (merchants ! i)
            (if i < length transactionTypes then transactionTypes ! i else '''') cfg)"
  by (simp add: AnonymizeMerchantList_def merchant_loop_length merchant_loop_nth)

theorem AnonymizeMerchantList_pointwise_witness:
  "length (AnonymizeMerchantList utf8_latin1 [''ALDI'', ''Bob''] [''Purchase''] None) = 2
   \<and> (1::nat) < length [''ALDI'', ''Bob'']
   \<and> AnonymizeMerchantList utf8_latin1 [''ALDI'', ''Bob''] [''Purchase''] None ! 1 =
       Anonymize utf8_latin1 ''Bob'' '''' None"
  using AnonymizeMerchantList_pointwise [of utf8_latin1 "[''ALDI'', ''Bob'']" "[''Purchase'']" None]
  by simp

end
